theory Spec2Isabelle
  imports Complex_Main "HOL-Library.Word"
begin

unbundle bit_operations_syntax

section \<open>Bit patterns\<close>

text \<open>
  \<^verbatim>\<open>union Float32Bits { uint32_t u; float f; }\<close> gives two views of the same 32 bits.
  A binary32 value is therefore modelled by its bit pattern: the view \<^verbatim>\<open>u\<close> is the
  word itself, the view \<^verbatim>\<open>f\<close> is the same word read by the IEEE-754 functions below.
\<close>

type_synonym u16 = "16 word"
type_synonym u32 = "32 word"
type_synonym u64 = "64 word"

definition kF32MantiBits :: nat where
  "kF32MantiBits = 23"

definition kF32HalfMantiBitDiff :: nat where
  "kF32HalfMantiBitDiff = 13"

definition kF32HalfBitDiff :: nat where
  "kF32HalfBitDiff = 16"

definition kF32Magic :: u32 where
  "kF32Magic = push_bit kF32MantiBits 113"

definition kF32HalfExpAdjust :: u32 where
  "kF32HalfExpAdjust = push_bit kF32MantiBits (127 - 15)"

definition kF32BfMantiBitDiff :: nat where
  "kF32BfMantiBitDiff = 16"

section \<open>IEEE-754 binary32 reading of a pattern\<close>

text \<open>
  The fields of a binary32 pattern: sign (bit 31), biased exponent (bits 30..23),
  mantissa (bits 22..0). \<open>f32_isnan\<close> and \<open>f32_signbit\<close> are
  \<^verbatim>\<open>std::isnan\<close> and \<^verbatim>\<open>std::signbit\<close>.
\<close>

definition f32_exp :: "u32 \<Rightarrow> nat" where
  "f32_exp w = unat (take_bit 8 (drop_bit 23 w))"

definition f32_mant :: "u32 \<Rightarrow> nat" where
  "f32_mant w = unat (take_bit 23 w)"

definition f32_signbit :: "u32 \<Rightarrow> bool" where
  "f32_signbit w = bit w 31"

definition f32_isnan :: "u32 \<Rightarrow> bool" where
  "f32_isnan w = (f32_exp w = 255 \<and> f32_mant w \<noteq> 0)"

definition f32_isinf :: "u32 \<Rightarrow> bool" where
  "f32_isinf w = (f32_exp w = 255 \<and> f32_mant w = 0)"

text \<open>
  Every finite binary32 value is an integer multiple of \<open>2 ^ -149\<close>. \<open>f32_units\<close> is the
  magnitude of a finite pattern counted in these units, \<open>f32_sval\<close> the signed count and
  \<open>f32_value\<close> the real number denoted.
\<close>

definition f32_units :: "u32 \<Rightarrow> nat" where
  "f32_units w =
     (if f32_exp w = 0 then f32_mant w
      else (2 ^ 23 + f32_mant w) * 2 ^ (f32_exp w - 1))"

definition f32_sval :: "u32 \<Rightarrow> int" where
  "f32_sval w = (if f32_signbit w then - int (f32_units w) else int (f32_units w))"

definition f32_value :: "u32 \<Rightarrow> real" where
  "f32_value w = real_of_int (f32_sval w) / 2 ^ 149"

subsection \<open>Rounding to nearest, ties to even\<close>

text \<open>
  \<open>shift_amt n\<close> is the number of low bits that a magnitude of \<open>n\<close> units loses when it
  is brought to 24 significant bits.
\<close>

fun shift_amt :: "nat \<Rightarrow> nat" where
  "shift_amt n = (if n < 2 ^ 24 then 0 else Suc (shift_amt (n div 2)))"

text \<open>\<open>rne_shift n k\<close> is \<open>n / 2 ^ k\<close> rounded to the nearest integer, ties to even.\<close>

definition rne_shift :: "nat \<Rightarrow> nat \<Rightarrow> nat" where
  "rne_shift n k =
     (let q = n div 2 ^ k; r = n mod 2 ^ k
      in if 2 ^ k < 2 * r \<or> (2 * r = 2 ^ k \<and> odd q) then q + 1 else q)"

text \<open>
  \<open>f32_round_mag s n\<close> is the pattern (sign bit clear) of the binary32 value nearest to
  the exact magnitude \<open>n / 2 ^ s\<close> units. The carry of a mantissa that rounds up to
  \<open>2 ^ 24\<close> lands in the exponent field; a result beyond the largest finite value is
  Infinity.
\<close>

definition f32_round_mag :: "nat \<Rightarrow> nat \<Rightarrow> u32" where
  "f32_round_mag s n =
     (let k = shift_amt (n div 2 ^ s);
          b = k * 2 ^ 23 + rne_shift n (k + s)
      in if 255 * 2 ^ 23 \<le> b then 0x7f800000 else of_nat b)"

subsection \<open>Addition and subtraction of binary32 values\<close>

text \<open>
  The host's \<^verbatim>\<open>float\<close> addition in the default rounding mode. A NaN operand gives
  that NaN quieted, opposite infinities give the default NaN, an exact zero sum is
  \<open>+0\<close> unless both operands are negative.
\<close>

definition f32_add :: "u32 \<Rightarrow> u32 \<Rightarrow> u32" where
  "f32_add a b =
     (if f32_isnan a then a OR 0x00400000
      else if f32_isnan b then b OR 0x00400000
      else if f32_isinf a then
        (if f32_isinf b \<and> f32_signbit a \<noteq> f32_signbit b then 0xffc00000 else a)
      else if f32_isinf b then b
      else
        (let z = f32_sval a + f32_sval b
         in if z = 0 then (if f32_signbit a \<and> f32_signbit b then 0x80000000 else 0)
            else if z < 0 then 0x80000000 OR f32_round_mag 0 (nat (- z))
            else f32_round_mag 0 (nat z)))"

definition f32_sub :: "u32 \<Rightarrow> u32 \<Rightarrow> u32" where
  "f32_sub a b = f32_add a (b XOR 0x80000000)"

section \<open>Half precision\<close>

text \<open>\<^verbatim>\<open>uint16_t float2half(float floatValue)\<close>\<close>

definition float2half :: "u32 \<Rightarrow> u16" where
  "float2half floatValue =
     (let inf = push_bit kF32MantiBits 255 :: u32;
          f16max = push_bit kF32MantiBits (127 + 16) :: u32;
          denormMagic = push_bit kF32MantiBits
            (of_nat ((127 - 15) + (kF32MantiBits - 10) + 1)) :: u32;
          signMask = 0x80000000 :: u32;
          sign = floatValue AND signMask;
          fu = floatValue XOR sign;
          halfValue =
            (if f16max \<le> fu then
               (let halfQnan = 0x7e00 :: u32; halfInf = 0x7c00 :: u32
                in ucast (if inf < fu then halfQnan else halfInf))
             else if fu < kF32Magic then
               ucast (f32_add fu denormMagic - denormMagic)
             else
               (let mantOdd = drop_bit kF32HalfMantiBitDiff fu AND 1;
                    fu1 = fu + 0xc8000fff;
                    fu2 = fu1 + mantOdd
                in ucast (drop_bit kF32HalfMantiBitDiff fu2))) :: u16
      in halfValue OR ucast (drop_bit kF32HalfBitDiff sign))"

text \<open>\<^verbatim>\<open>float half2float(uint16_t halfValue)\<close>\<close>

definition half2float :: "u16 \<Rightarrow> u32" where
  "half2float halfValue =
     (let shiftedExp = push_bit kF32HalfMantiBitDiff 0x7c00 :: u32;
          f0 = push_bit kF32HalfMantiBitDiff (ucast (halfValue AND 0x7fff)) :: u32;
          exp = shiftedExp AND f0;
          f1 = f0 + kF32HalfExpAdjust;
          f2 = (if exp = shiftedExp then f1 + kF32HalfExpAdjust
                else if exp = 0 then f32_sub (f1 + push_bit kF32MantiBits 1) kF32Magic
                else f1)
      in f2 OR push_bit kF32HalfBitDiff (ucast (halfValue AND 0x8000)))"

section \<open>bfloat16\<close>

text \<open>\<^verbatim>\<open>uint16_t float2bfloat(float floatValue)\<close>\<close>

definition float2bfloat :: "u32 \<Rightarrow> u16" where
  "float2bfloat floatValue =
     (if f32_isnan floatValue then (if f32_signbit floatValue then 0xFFC0 else 0x7FC0)
      else
        (let lsb = drop_bit kF32BfMantiBitDiff floatValue AND 1;
             roundingBias = 0x7fff + lsb;
             floatBits = floatValue + roundingBias
         in ucast (drop_bit kF32BfMantiBitDiff floatBits)))"

text \<open>\<^verbatim>\<open>float bfloat2float(uint16_t bfloatBits)\<close>\<close>

definition bfloat2float :: "u16 \<Rightarrow> u32" where
  "bfloat2float bfloatBits = push_bit kF32BfMantiBitDiff (ucast bfloatBits)"

section \<open>Reading of the 16-bit patterns\<close>

text \<open>
  The fields of an f16 pattern: sign (bit 15), exponent (bits 14..10), mantissa
  (bits 9..0); of a bf16 pattern: sign (bit 15), exponent (bits 14..7), mantissa
  (bits 6..0). An all-ones exponent is Infinity when the mantissa is zero and a NaN
  otherwise.
\<close>

definition f16_exp :: "u16 \<Rightarrow> nat" where
  "f16_exp h = unat (take_bit 5 (drop_bit 10 h))"

definition f16_mant :: "u16 \<Rightarrow> nat" where
  "f16_mant h = unat (take_bit 10 h)"

definition f16_isnan :: "u16 \<Rightarrow> bool" where
  "f16_isnan h = (f16_exp h = 31 \<and> f16_mant h \<noteq> 0)"

definition f16_isfinite :: "u16 \<Rightarrow> bool" where
  "f16_isfinite h = (f16_exp h \<noteq> 31)"

definition bf16_exp :: "u16 \<Rightarrow> nat" where
  "bf16_exp h = unat (take_bit 8 (drop_bit 7 h))"

definition bf16_mant :: "u16 \<Rightarrow> nat" where
  "bf16_mant h = unat (take_bit 7 h)"

definition bf16_isnan :: "u16 \<Rightarrow> bool" where
  "bf16_isnan h = (bf16_exp h = 255 \<and> bf16_mant h \<noteq> 0)"

section \<open>ABI shims\<close>

text \<open>
  \<^verbatim>\<open>BF16ABIType\<close> is \<^verbatim>\<open>float\<close> on x86-64 and \<^verbatim>\<open>uint16_t\<close> elsewhere. The shim
  copies the two bytes of the bf16 pattern over the low bytes of a zero-initialised
  carrier; on little-endian x86-64 the \<^verbatim>\<open>float\<close> carrier then holds the pattern
  zero-extended. The platform is a parameter of the model.
\<close>

datatype BF16ABIType = ABI_float u32 | ABI_uint16 u16

definition truncsfbf2 :: "bool \<Rightarrow> u32 \<Rightarrow> BF16ABIType" where
  "truncsfbf2 x86_64 f =
     (let bf = float2bfloat f
      in if x86_64 then ABI_float (ucast bf) else ABI_uint16 bf)"

subsection \<open>Narrowing a binary64 value\<close>

text \<open>
  A binary64 pattern: sign (bit 63), exponent (bits 62..52), mantissa (bits 51..0).
  A finite binary64 magnitude is \<open>f64_units\<close> multiples of \<open>2 ^ -1074\<close>, that is
  \<open>f64_units / 2 ^ 925\<close> units of binary32. \<open>f64_to_f32\<close> is
  \<^verbatim>\<open>static_cast<float>(d)\<close> in the default rounding mode; a NaN keeps its sign and
  the high bits of its payload and is quieted.
\<close>

definition f64_exp :: "u64 \<Rightarrow> nat" where
  "f64_exp d = unat (take_bit 11 (drop_bit 52 d))"

definition f64_mant :: "u64 \<Rightarrow> nat" where
  "f64_mant d = unat (take_bit 52 d)"

definition f64_signbit :: "u64 \<Rightarrow> bool" where
  "f64_signbit d = bit d 63"

definition f64_isnan :: "u64 \<Rightarrow> bool" where
  "f64_isnan d = (f64_exp d = 2047 \<and> f64_mant d \<noteq> 0)"

definition f64_isinf :: "u64 \<Rightarrow> bool" where
  "f64_isinf d = (f64_exp d = 2047 \<and> f64_mant d = 0)"

definition f64_units :: "u64 \<Rightarrow> nat" where
  "f64_units d =
     (if f64_exp d = 0 then f64_mant d
      else (2 ^ 52 + f64_mant d) * 2 ^ (f64_exp d - 1))"

definition f64_to_f32 :: "u64 \<Rightarrow> u32" where
  "f64_to_f32 d =
     (let sign = (if f64_signbit d then 0x80000000 else 0) :: u32
      in if f64_isnan d then sign OR 0x7fc00000 OR of_nat (f64_mant d div 2 ^ 29)
         else if f64_isinf d then sign OR 0x7f800000
         else sign OR f32_round_mag 925 (f64_units d))"

definition truncdfbf2 :: "bool \<Rightarrow> u64 \<Rightarrow> BF16ABIType" where
  "truncdfbf2 x86_64 d = truncsfbf2 x86_64 (f64_to_f32 d)"

section \<open>Comparison of binary32 values\<close>

text \<open>
  \<^verbatim>\<open>a <= b\<close> on \<^verbatim>\<open>float\<close>: false when an operand is a NaN. The formula of
  \<open>f32_units\<close> gives an Infinity pattern \<open>2 ^ 277\<close> units, more than any finite
  pattern has, so \<open>f32_sval\<close> orders all patterns that are not NaNs as IEEE-754 does
  (with \<open>-0\<close> and \<open>+0\<close> equal).
\<close>

definition f32_le :: "u32 \<Rightarrow> u32 \<Rightarrow> bool" where
  "f32_le a b = (\<not> f32_isnan a \<and> \<not> f32_isnan b \<and> f32_sval a \<le> f32_sval b)"

section \<open>Facts about the patterns\<close>

declare shift_amt.simps [simp del]

lemmas k_defs = kF32MantiBits_def kF32HalfMantiBitDiff_def kF32HalfBitDiff_def
  kF32Magic_def kF32HalfExpAdjust_def kF32BfMantiBitDiff_def

lemmas f32_defs = f32_add_def f32_sub_def f32_isnan_def f32_isinf_def f32_exp_def f32_mant_def
  f32_sval_def f32_signbit_def f32_units_def f32_round_mag_def rne_shift_def

lemmas f16_defs = f16_exp_def f16_mant_def f16_isnan_def f16_isfinite_def
  bf16_exp_def bf16_mant_def bf16_isnan_def

section \<open>Concrete conversions\<close>

text \<open>
  C9. The patterns \<open>0x00000000\<close>, \<open>0x80000000\<close> and \<open>0x3F800000\<close> are \<open>0.0f\<close>,
  \<open>-0.0f\<close> and \<open>1.0f\<close>. \<open>float2half\<close> maps them to \<open>0x0000\<close>, \<open>0x8000\<close> (the sign
  of zero is kept) and \<open>0x3C00\<close>, and \<open>half2float 0x3C00\<close> is exactly the pattern of
  \<open>1.0f\<close>.
\<close>

theorem float2half_concrete_cases:
  "float2half 0 = 0 \<and> float2half 0x80000000 = 0x8000 \<and> float2half 0x3F800000 = 0x3C00
   \<and> half2float 0x3C00 = 0x3F800000
   \<and> f32_value 0 = 0 \<and> \<not> f32_signbit 0
   \<and> f32_value 0x80000000 = 0 \<and> f32_signbit 0x80000000
   \<and> f32_value 0x3F800000 = 1"
  by (simp add: float2half_def half2float_def k_defs f32_defs shift_amt.simps f32_value_def)

text \<open>
  C3, as the specification states it: encoding \<open>65520.0f\<close> (pattern \<open>0x477FF000\<close>)
  gives a finite f16 pattern. It does not: \<open>65520\<close> is not below the f16 maximum
  \<open>65504\<close> but halfway between it and \<open>2 ^ 16\<close>, the retained mantissa \<open>0x3FF\<close> is
  odd, and the tie rounds up into the exponent field.
\<close>

theorem float2half_65520_not_finite:
  "f32_value 0x477FF000 = 65520 \<and> \<not> f16_isfinite (float2half 0x477FF000)"
  by (simp add: float2half_def k_defs f32_defs f32_value_def f16_defs)

text \<open>
  C3, amended: encoding \<open>65520.0f\<close> gives \<open>0x7C00\<close> (Infinity); the f16 maximum
  \<open>65504.0f\<close> (pattern \<open>0x477FE000\<close>) and the largest binary32 value below \<open>65520.0f\<close>
  (pattern \<open>0x477FEFFF\<close>) give the finite pattern \<open>0x7BFF\<close>; encoding \<open>70000.0f\<close>
  (pattern \<open>0x4788B800\<close>) gives exactly \<open>0x7C00\<close>.
\<close>

theorem float2half_near_f16_max:
  "f32_value 0x477FF000 = 65520 \<and> float2half 0x477FF000 = 0x7C00
   \<and> f32_value 0x477FE000 = 65504 \<and> float2half 0x477FE000 = 0x7BFF
   \<and> float2half 0x477FEFFF = 0x7BFF \<and> f16_isfinite 0x7BFF
   \<and> f32_value 0x4788B800 = 70000 \<and> float2half 0x4788B800 = 0x7C00"
  by (simp add: float2half_def k_defs f32_defs f32_value_def f16_defs)

section \<open>NaN inputs of the bfloat16 encoder\<close>

text \<open>
  C5. For a NaN input \<open>float2bfloat\<close> returns \<open>0xFFC0\<close> when the sign bit is set and
  \<open>0x7FC0\<close> otherwise; the result depends on nothing else of the input.
\<close>

theorem float2bfloat_nan:
  "f32_isnan x \<Longrightarrow> float2bfloat x = (if f32_signbit x then 0xFFC0 else 0x7FC0)"
  by (simp add: float2bfloat_def)

theorem float2bfloat_nan_witness:
  "f32_isnan 0x7F800001 \<and> float2bfloat 0x7F800001 = 0x7FC0
   \<and> f32_isnan 0xFFC12345 \<and> float2bfloat 0xFFC12345 = 0xFFC0"
proof -
  have a: "f32_isnan 0x7F800001" and b: "f32_isnan 0xFFC12345"
    by (simp_all add: f32_defs)
  show ?thesis
    using a b float2bfloat_nan [OF a] float2bfloat_nan [OF b] by (simp add: f32_defs)
qed

section \<open>Patterns as natural numbers\<close>

lemma u32_lt: "unat (x :: u32) < 4294967296"
  using unsigned_less [of x, where ?'a = nat] by simp

lemma u16_lt: "unat (x :: u16) < 65536"
  using unsigned_less [of x, where ?'a = nat] by simp

lemma bit_nat_word: "bit (w :: 'a::len word) n = odd (unat w div 2 ^ n)"
proof -
  have "bit (unat w) n = bit w n" 
    by (auto simp add: bit_unsigned_iff dest: bit_imp_le_length)
  then show ?thesis by (simp add: bit_iff_odd)
qed

lemma top_bit_nat: "n < 2 * k \<Longrightarrow> 0 < k \<Longrightarrow> odd (n div k) = (k \<le> (n::nat))"
proof (cases "n < k")
  case True
  then show ?thesis by simp
next
  case False
  assume "n < 2 * k" "0 < k"
  with False have "n div k = 1"
    by (simp add: div_nat_eqI)
  with False show ?thesis by simp
qed

lemma f32_exp_nat: "f32_exp x = (unat x div 8388608) mod 256"
  by (simp add: f32_exp_def take_bit_eq_mod drop_bit_eq_div unat_mod_distrib unat_div_distrib)

lemma f32_mant_nat: "f32_mant x = unat x mod 8388608"
  by (simp add: f32_mant_def take_bit_eq_mod unat_mod_distrib)

lemma f32_signbit_nat: "f32_signbit x = (2147483648 \<le> unat x)"
  using top_bit_nat [of "unat x" 2147483648] u32_lt [of x]
  by (simp add: f32_signbit_def bit_nat_word)

lemma f32_exp_lt: "f32_exp x < 256"
  by (simp add: f32_exp_nat)

lemma f32_mant_lt: "f32_mant x < 8388608"
  by (simp add: f32_mant_nat)

lemma f32_mag_split: "unat x mod 2147483648 = 8388608 * f32_exp x + f32_mant x"
  using mod_mult2_eq [of "unat x" 8388608 256] by (simp add: f32_exp_nat f32_mant_nat)

lemma f32_isnan_nat: "f32_isnan x = (2139095040 < unat x mod 2147483648)"
  using f32_exp_lt [of x] f32_mant_lt [of x] by (auto simp add: f32_isnan_def f32_mag_split)

lemma f32_isinf_nat: "f32_isinf x = (unat x mod 2147483648 = 2139095040)"
proof (cases "f32_exp x = 255")
  case True
  then show ?thesis by (simp add: f32_isinf_def f32_mag_split)
next
  case False
  then have "f32_exp x \<le> 254" using f32_exp_lt [of x] by simp
  then have "8388608 * f32_exp x + f32_mant x < 2139095040"
    using f32_mant_lt [of x] by simp
  with False show ?thesis by (simp add: f32_isinf_def f32_mag_split)
qed

lemma unat_split_sign: "unat (x::u32) = (if f32_signbit x then 2147483648 else 0) + unat x mod 2147483648"
proof -
  have "unat x = 2147483648 * (unat x div 2147483648) + unat x mod 2147483648" by simp
  moreover have "unat x div 2147483648 = (if f32_signbit x then 1 else 0)"
    using u32_lt [of x] by (auto simp add: f32_signbit_nat div_nat_eqI)
  ultimately show ?thesis by (simp split: if_splits)
qed

lemma float2bfloat_nat:
  assumes "\<not> f32_isnan x"
  shows "unat (float2bfloat x) = (unat x + 32767 + (unat x div 65536) mod 2) div 65536"
proof -
  define l where "l = unat x div 65536 mod 2"
  have l: "l < 2" by (simp add: l_def)
  have b: "unat x mod 2147483648 \<le> 2139095040"
    using assms by (simp add: f32_isnan_nat)
  have c: "unat x \<le> 4286578688"
    using b unat_split_sign [of x] by (simp split: if_splits)
  have d: "(unat x + 32767 + l) div 65536 < 65536"
    using c l by (simp add: less_mult_imp_div_less)
  have e: "unat x div 65536 mod 4294967296 = unat x div 65536"
    using u32_lt [of x] by simp
  have "unat (float2bfloat x) = ((unat x + (32767 + l) mod 4294967296) mod 4294967296 div 65536) mod 65536"
    using assms
    by (simp add: e add: float2bfloat_def k_defs unat_word_ariths unsigned_ucast_eq take_bit_eq_mod drop_bit_eq_div and_one_eq
        unat_mod_distrib unat_div_distrib l_def)
  also have "(32767 + l) mod 4294967296 = 32767 + l" using l by simp
  also have "(unat x + (32767 + l)) mod 4294967296 = unat x + 32767 + l" using l c by simp
  also have "(unat x + 32767 + l) div 65536 mod 65536 = (unat x + 32767 + l) div 65536"
    using d by simp
  finally show ?thesis by (simp add: l_def)
qed


lemma bfloat2float_nat: "unat (bfloat2float p) = unat p * 65536"
  using u16_lt [of p]
  by (simp add: bfloat2float_def k_defs push_bit_eq_mult take_bit_eq_mod
      unsigned_ucast_eq unat_word_ariths)

lemma bf16_exp_nat: "bf16_exp p = (unat p div 128) mod 256"
  by (simp add: bf16_exp_def take_bit_eq_mod drop_bit_eq_div unat_mod_distrib unat_div_distrib)

lemma bf16_mant_nat: "bf16_mant p = unat p mod 128"
  by (simp add: bf16_mant_def take_bit_eq_mod unat_mod_distrib)

lemma u16_sign_nat: "bit (p :: u16) 15 = (32768 \<le> unat p)"
  using top_bit_nat [of "unat p" 32768] u16_lt [of p] by (simp add: bit_nat_word)

lemma bfloat2float_mag: "unat (bfloat2float p) mod 2147483648 = (unat p mod 32768) * 65536"
  using mult_mod_left [of "unat p" 32768 65536] by (simp add: bfloat2float_nat)

lemma bfloat2float_exp: "f32_exp (bfloat2float p) = bf16_exp p"
proof -
  have "unat p * 65536 div 8388608 = unat p div 128"
    using div_mult2_eq [of "unat p * 65536" 65536 128] by simp
  then show ?thesis by (simp add: f32_exp_nat bf16_exp_nat bfloat2float_nat)
qed

lemma bfloat2float_mant: "f32_mant (bfloat2float p) = bf16_mant p * 65536"
  using mult_mod_left [of "unat p" 128 65536]
  by (simp add: f32_mant_nat bf16_mant_nat bfloat2float_nat)

lemma bfloat2float_isnan: "f32_isnan (bfloat2float p) = bf16_isnan p"
  by (simp add: f32_isnan_def bf16_isnan_def bfloat2float_exp bfloat2float_mant)

lemma bfloat2float_signbit: "f32_signbit (bfloat2float p) = bit p 15"
  by (simp add: f32_signbit_nat u16_sign_nat bfloat2float_nat)

section \<open>Round trips\<close>

text \<open>
  C2. For every bf16 pattern \<open>p\<close> that is not a NaN, encoding the decoded value gives
  \<open>p\<close> back. For a NaN pattern the result is again a NaN pattern with the sign bit of
  \<open>p\<close>.
\<close>

theorem bfloat_roundtrip:
  "(\<not> bf16_isnan p \<longrightarrow> float2bfloat (bfloat2float p) = p) \<and>
   (bf16_isnan p \<longrightarrow>
      bf16_isnan (float2bfloat (bfloat2float p)) \<and>
      bit (float2bfloat (bfloat2float p)) 15 = bit p 15)"
proof (intro conjI impI)
  assume "\<not> bf16_isnan p"
  then have "\<not> f32_isnan (bfloat2float p)" by (simp add: bfloat2float_isnan)
  then have "unat (float2bfloat (bfloat2float p)) =
      (unat p * 65536 + 32767 + (unat p * 65536 div 65536) mod 2) div 65536"
    by (simp add: float2bfloat_nat bfloat2float_nat)
  also have "\<dots> = unat p"
  proof -
    have "unat p mod 2 < 2" by simp
    then show ?thesis by (simp add: div_nat_eqI)
  qed
  finally show "float2bfloat (bfloat2float p) = p" by (simp add: word_unat_eq_iff)
next
  assume "bf16_isnan p"
  then have n: "f32_isnan (bfloat2float p)" by (simp add: bfloat2float_isnan)
  show "bf16_isnan (float2bfloat (bfloat2float p))"
    using n by (simp add: float2bfloat_def f16_defs)
  show "bit (float2bfloat (bfloat2float p)) 15 = bit p 15"
    using n by (simp add: float2bfloat_def bfloat2float_signbit)
qed

theorem bfloat_roundtrip_witness:
  "\<not> bf16_isnan 0x3F80 \<and> float2bfloat (bfloat2float 0x3F80) = 0x3F80 \<and>
   bf16_isnan 0xFF81 \<and> bf16_isnan (float2bfloat (bfloat2float 0xFF81)) \<and>
   bit (float2bfloat (bfloat2float 0xFF81)) 15 = bit (0xFF81 :: u16) 15 \<and>
   float2bfloat (bfloat2float 0xFF81) \<noteq> 0xFF81"
proof -
  have a: "\<not> bf16_isnan 0x3F80" and b: "bf16_isnan 0xFF81"
    by (simp_all add: f16_defs)
  have c: "float2bfloat (bfloat2float 0xFF81) = 0xFFC0"
    by (simp add: float2bfloat_def bfloat2float_def k_defs f32_defs)
  show ?thesis
    using a b bfloat_roundtrip [of "0x3F80"] bfloat_roundtrip [of "0xFF81"] by (simp add: c)
qed


section \<open>The bfloat16 decoder keeps the order\<close>

lemma units_mono:
  assumes "unat a mod 2147483648 < unat b mod 2147483648"
  shows "f32_units a < f32_units b"
proof -
  define ea ma eb mb where "ea = f32_exp a" and "ma = f32_mant a" and "eb = f32_exp b" and "mb = f32_mant b"
  have lt: "8388608 * ea + ma < 8388608 * eb + mb"
    using assms by (simp add: f32_mag_split ea_def ma_def eb_def mb_def)
  have ma: "ma < 8388608" and mb: "mb < 8388608"
    by (simp_all add: ma_def mb_def f32_mant_lt)
  have le: "ea \<le> eb" using lt ma mb by simp
  show ?thesis
  proof (cases "ea = eb")
    case True
    with lt have "ma < mb" by simp
    with True show ?thesis
      by (simp add: f32_units_def flip: ea_def ma_def eb_def mb_def)
  next
    case False
    with le have l: "ea < eb" by simp
    have "f32_units a < 8388608 * 2 ^ ea"
    proof (cases "ea = 0")
      case True
      then show ?thesis using ma by (simp add: f32_units_def flip: ea_def ma_def)
    next
      case False
      then obtain k where k: "ea = Suc k" by (cases ea) auto
      have "(8388608 + ma) * 2 ^ k < (2 * 8388608) * 2 ^ k"
        using ma by simp
      then show ?thesis by (simp add: f32_units_def k flip: ea_def ma_def)
    qed
    also have "8388608 * (2::nat) ^ ea \<le> 8388608 * 2 ^ (eb - 1)"
      using l by simp
    also have "\<dots> \<le> f32_units b"
      using l by (simp add: f32_units_def flip: eb_def mb_def)
    finally show ?thesis .
  qed
qed


lemma u16_split_sign: "unat (p::u16) = (if bit p 15 then 32768 else 0) + unat p mod 32768"
proof -
  have "unat p = 32768 * (unat p div 32768) + unat p mod 32768" by simp
  moreover have "unat p div 32768 = (if bit p 15 then 1 else 0)"
    using u16_lt [of p] by (auto simp add: u16_sign_nat div_nat_eqI)
  ultimately show ?thesis by (simp split: if_splits)
qed

lemma bfloat2float_inj: "inj bfloat2float"
proof (rule injI)
  fix a b assume "bfloat2float a = bfloat2float b"
  then have "unat (bfloat2float a) = unat (bfloat2float b)" by simp
  then show "a = b" by (simp add: bfloat2float_nat word_unat_eq_iff)
qed

lemma bfloat2float_units_less:
  assumes "bit a 15 = bit b 15" and "a < b"
  shows "f32_units (bfloat2float a) < f32_units (bfloat2float b)"
proof -
  have "unat a < unat b" using assms(2) by (simp add: word_less_nat_alt)
  then have "unat a mod 32768 < unat b mod 32768"
    using u16_split_sign [of a] u16_split_sign [of b] assms(1) by (simp split: if_splits)
  then show ?thesis by (intro units_mono) (simp add: bfloat2float_mag)
qed

text \<open>
  C8. \<open>bfloat2float\<close> is injective on the 16-bit patterns. For two patterns \<open>a < b\<close>
  (as unsigned integers) that are not NaNs and have the same sign bit, the decoded
  magnitude of \<open>a\<close> is at most that of \<open>b\<close>; as binary32 values the decoded \<open>a\<close> is
  below or equal to the decoded \<open>b\<close> when the sign is clear, and the other way round when
  it is set.
\<close>

theorem bfloat2float_inj_mono:
  "inj bfloat2float \<and>
   (\<not> bf16_isnan a \<and> \<not> bf16_isnan b \<and> bit a 15 = bit b 15 \<and> a < b \<longrightarrow>
      f32_units (bfloat2float a) \<le> f32_units (bfloat2float b) \<and>
      (if bit a 15 then f32_le (bfloat2float b) (bfloat2float a)
       else f32_le (bfloat2float a) (bfloat2float b)))"
proof (intro conjI impI)
  show "inj bfloat2float" by (rule bfloat2float_inj)
next
  assume h: "\<not> bf16_isnan a \<and> \<not> bf16_isnan b \<and> bit a 15 = bit b 15 \<and> a < b"
  then have u: "f32_units (bfloat2float a) < f32_units (bfloat2float b)"
    by (simp add: bfloat2float_units_less)
  then show "f32_units (bfloat2float a) \<le> f32_units (bfloat2float b)" by simp
  show "if bit a 15 then f32_le (bfloat2float b) (bfloat2float a)
       else f32_le (bfloat2float a) (bfloat2float b)"
    using h u by (simp add: f32_le_def f32_sval_def bfloat2float_isnan bfloat2float_signbit)
qed

theorem bfloat2float_inj_mono_witness:
  "inj bfloat2float \<and> \<not> bf16_isnan 0x3F80 \<and> \<not> bf16_isnan 0x7F80 \<and> (0x3F80 :: u16) < 0x7F80 \<and>
   f32_le (bfloat2float 0x3F80) (bfloat2float 0x7F80) \<and>
   \<not> bf16_isnan 0x8001 \<and> \<not> bf16_isnan 0xC000 \<and> (0x8001 :: u16) < 0xC000 \<and>
   f32_le (bfloat2float 0xC000) (bfloat2float 0x8001)"
  using bfloat2float_inj_mono [of "0x3F80" "0x7F80"] bfloat2float_inj_mono [of "0x8001" "0xC000"]
  by (simp add: f16_defs)

section \<open>Overflow of the bfloat16 encoder\<close>

text \<open>
  The largest finite bf16 value is the pattern \<open>0x7F7F\<close>, as binary32 \<open>0x7F7F0000\<close>.
  The binary32 pattern \<open>0x7F7F8000\<close> is the midpoint between it and \<open>2 ^ 128\<close>; the
  retained mantissa of \<open>0x7F7F\<close> is odd, so rounding to nearest even takes the midpoint
  and everything above it beyond the largest finite value.
\<close>

lemma bf16_midpoint: "2 * f32_units 0x7F7F8000 = f32_units 0x7F7F0000 + 2 ^ 277"
  by (simp add: f32_units_def f32_exp_def f32_mant_def)

lemma float2bfloat_overflow_bits:
  assumes "2139062272 \<le> unat x mod 2147483648" and "unat x mod 2147483648 \<le> 2139095040"
  shows "float2bfloat x = (if f32_signbit x then 0xFF80 else 0x7F80)"
proof -
  define M where "M = unat x mod 2147483648"
  define S :: nat where "S = (if f32_signbit x then 32768 else 0)"
  have X: "unat x = 65536 * S + M"
    by (subst unat_split_sign) (simp add: M_def S_def)
  have nn: "\<not> f32_isnan x" using assms(2) by (simp add: f32_isnan_nat)
  have "(unat x + 32767 + (unat x div 65536) mod 2) div 65536 = S + 32640"
  proof (cases "M = 2139095040")
    case True
    then have "unat x div 65536 = S + 32640" by (simp add: X)
    then have "(unat x div 65536) mod 2 = 0" by (simp add: S_def)
    then show ?thesis by (simp add: X True)
  next
    case False
    then have r: "2139062272 \<le> M" "M < 2139095040" using assms by (simp_all add: M_def)
    then have "unat x div 65536 = S + 32639" by (simp add: X div_nat_eqI)
    then have "(unat x div 65536) mod 2 = 1" by (simp add: S_def)
    then show ?thesis using r by (simp add: X div_nat_eqI)
  qed
  then have "unat (float2bfloat x) = S + 32640"
    using nn by (simp add: float2bfloat_nat)
  then show ?thesis by (simp add: word_unat_eq_iff S_def)
qed

text \<open>
  C10. For every input that is not a NaN and is an Infinity or has a magnitude of at
  least that midpoint, \<open>float2bfloat\<close> returns the bf16 Infinity with the sign of the
  input: \<open>0x7F80\<close> or \<open>0xFF80\<close>.
\<close>

theorem float2bfloat_overflow:
  assumes "\<not> f32_isnan x" and "f32_isinf x \<or> f32_units 0x7F7F8000 \<le> f32_units x"
  shows "float2bfloat x = (if f32_signbit x then 0xFF80 else 0x7F80)"
proof -
  have hi: "unat x mod 2147483648 \<le> 2139095040"
    using assms(1) by (simp add: f32_isnan_nat)
  have "\<not> unat x mod 2147483648 < 2139062272"
  proof
    assume "unat x mod 2147483648 < 2139062272"
    then have l: "unat x mod 2147483648 < unat (0x7F7F8000 :: u32) mod 2147483648" by simp
    then have "f32_units x < f32_units 0x7F7F8000" by (rule units_mono)
    moreover have "\<not> f32_isinf x" using l by (simp add: f32_isinf_nat)
    ultimately show False using assms(2) by simp
  qed
  then show ?thesis using hi by (intro float2bfloat_overflow_bits) simp_all
qed

theorem float2bfloat_overflow_witness:
  "float2bfloat 0x7F7F8000 = 0x7F80 \<and> float2bfloat 0xFF7FFFFF = 0xFF80 \<and>
   float2bfloat 0x7F800000 = 0x7F80 \<and> float2bfloat 0xFF800000 = 0xFF80 \<and>
   \<not> f32_isnan 0x7F7F8000 \<and> \<not> f32_isnan 0xFF7FFFFF \<and> f32_isinf 0x7F800000 \<and> f32_isinf 0xFF800000 \<and>
   f32_units 0x7F7F8000 \<le> f32_units 0xFF7FFFFF"
proof -
  have a: "\<not> f32_isnan 0x7F7F8000" "\<not> f32_isnan 0xFF7FFFFF" "\<not> f32_isnan 0x7F800000" "\<not> f32_isnan 0xFF800000"
    by (simp_all add: f32_defs)
  have b: "f32_isinf 0x7F800000" "f32_isinf 0xFF800000"
    by (simp_all add: f32_defs)
  have c: "f32_units 0x7F7F8000 \<le> f32_units 0xFF7FFFFF"
    by (simp add: f32_defs)
  show ?thesis
    using a b c float2bfloat_overflow [of "0x7F7F8000"] float2bfloat_overflow [of "0xFF7FFFFF"]
      float2bfloat_overflow [of "0x7F800000"] float2bfloat_overflow [of "0xFF800000"]
    by (simp add: f32_signbit_def)
qed

section \<open>Truncation of a double\<close>

text \<open>
  C7. For every binary64 input the double shim returns what the single shim returns on
  the input narrowed to binary32, on either carrier. The narrowing rounds once and the
  bf16 encoder rounds again: \<open>1 + 2 ^ -24\<close> (pattern \<open>0x3FF0000010000000\<close>) lies on a
  binary32 rounding boundary and narrows to \<open>1.0f\<close>; \<open>1 + 2 ^ -8 + 2 ^ -30\<close> (pattern
  \<open>0x3FF0100000400000\<close>) narrows to the bf16 tie \<open>1 + 2 ^ -8\<close> and then rounds down to
  \<open>0x3F80\<close>.
\<close>

theorem truncdfbf2_narrows_first:
  "truncdfbf2 x86_64 d = truncsfbf2 x86_64 (f64_to_f32 d)
   \<and> f64_to_f32 0x3FF0000010000000 = 0x3F800000
   \<and> f64_to_f32 0x3FF0100000400000 = 0x3F808000
   \<and> truncdfbf2 False 0x3FF0100000400000 = ABI_uint16 0x3F80"
  by (simp add: truncdfbf2_def truncsfbf2_def float2bfloat_def k_defs f32_isnan_def f32_exp_def
      f32_mant_def f64_to_f32_def f64_isnan_def f64_isinf_def f64_exp_def f64_mant_def
      f64_signbit_def f64_units_def f32_round_mag_def rne_shift_def shift_amt.simps)

section \<open>Sign and magnitude in the half-precision encoder\<close>

lemma and_exp_word: "(x :: 'a::len word) AND 2 ^ n = (if bit x n then 2 ^ n else 0)"
  by (rule bit_word_eqI) (auto simp: bit_simps)

lemma xor_and_exp_word: "(x :: 'a::len word) XOR (x AND 2 ^ n) = unset_bit n x"
  by (rule bit_word_eqI) (auto simp: bit_simps)

lemma unset_top: "unset_bit 31 (x :: u32) = take_bit 31 x"
  by (rule bit_word_eqI) (auto simp: bit_simps)

lemma sign_and: "(x :: u32) AND 0x80000000 = (if f32_signbit x then 0x80000000 else 0)"
  using and_exp_word [of x 31] by (simp add: f32_signbit_def)

lemma mag_xor: "(x :: u32) XOR (x AND 0x80000000) = take_bit 31 x"
  using xor_and_exp_word [of x 31] by (simp add: unset_top)

lemma mag_mask: "(x :: u32) AND 0x7fffffff = take_bit 31 x"
  using take_bit_eq_mask [of 31 x] by (simp add: mask_eq_exp_minus_1)

lemma unat_mag: "unat (take_bit 31 (x::u32)) = unat x mod 2147483648"
  by (simp add: take_bit_eq_mod unat_mod_distrib)

lemma sign16:
  "(ucast (drop_bit 16 ((x::u32) AND 0x80000000)) :: u16) = (if f32_signbit x then 0x8000 else 0)"
  by (simp only: sign_and) simp

lemma float2half_alt:
  "float2half x =
     (let fu = take_bit 31 x
      in (if 0x47800000 \<le> fu then (if 0x7f800000 < fu then 0x7e00 else 0x7c00)
          else if fu < 0x38800000 then ucast (f32_add fu 0x3f000000 - 0x3f000000)
          else ucast (drop_bit 13 (fu + 0xc8000fff + (drop_bit 13 fu AND 1))))
         OR (if f32_signbit x then 0x8000 else 0))"
  unfolding float2half_def Let_def k_defs mag_xor sign16 by simp

text \<open>
  C4. When the magnitude pattern of the input is at least \<open>(127 + 16) << 23\<close>: the
  input is a NaN exactly when the magnitude pattern exceeds the Infinity pattern
  \<open>0x7f800000\<close>, and then \<open>float2half\<close> returns \<open>0x7e00\<close> with the sign of the input
  in bit 15; otherwise (an Infinity, or a finite value of magnitude \<open>2 ^ 16\<close> or more)
  it returns \<open>0x7c00\<close> with the sign of the input in bit 15. The result is an ordinary
  value; no error is signalled.
\<close>

theorem float2half_inf_nan:
  assumes "push_bit 23 (127 + 16) \<le> x AND 0x7fffffff"
  shows "(f32_isnan x \<longleftrightarrow> 0x7f800000 < x AND 0x7fffffff) \<and>
         float2half x = (if 0x7f800000 < x AND 0x7fffffff then 0x7e00 else 0x7c00)
                           OR (if f32_signbit x then 0x8000 else 0)"
  using assms by (simp add: float2half_alt mag_mask f32_isnan_nat word_less_nat_alt unat_mag)

theorem float2half_inf_nan_witness:
  "float2half 0x7FC00000 = 0x7e00 \<and> float2half 0xFF800001 = 0xfe00 \<and> f32_isnan 0xFF800001 \<and>
   float2half 0x7F800000 = 0x7c00 \<and> float2half 0xC7800000 = 0xfc00 \<and> \<not> f32_isnan 0xC7800000 \<and>
   f32_value 0xC7800000 = - 65536"
proof -
  have a: "push_bit 23 (127 + 16) \<le> (0x7FC00000 :: u32) AND 0x7fffffff"
    "push_bit 23 (127 + 16) \<le> (0xFF800001 :: u32) AND 0x7fffffff"
    "push_bit 23 (127 + 16) \<le> (0x7F800000 :: u32) AND 0x7fffffff"
    "push_bit 23 (127 + 16) \<le> (0xC7800000 :: u32) AND 0x7fffffff"
    by simp_all
  have b: "f32_value 0xC7800000 = - 65536"
    by (simp add: f32_value_def f32_defs)
  show ?thesis
    using float2half_inf_nan [OF a(1)] float2half_inf_nan [OF a(2)]
      float2half_inf_nan [OF a(3)] float2half_inf_nan [OF a(4)] b
    by (simp add: f32_signbit_def)
qed


section \<open>Rounding and the magic constant\<close>

lemma shift_amt_range:
  "8388608 * 2 ^ k \<le> n \<Longrightarrow> n < 16777216 * 2 ^ k \<Longrightarrow> shift_amt n = k"
proof (induction k arbitrary: n)
  case 0
  then show ?case by (simp add: shift_amt.simps)
next
  case (Suc k)
  have p: "16777216 * 2 ^ k \<le> n" using Suc.prems by simp
  have h: "(1::nat) \<le> 2 ^ k" by simp
  have a: "\<not> n < 16777216" using p h by linarith
  have "8388608 * 2 ^ k \<le> n div 2" and "n div 2 < 16777216 * 2 ^ k"
    using Suc.prems by simp_all
  then have "shift_amt (n div 2) = k" by (rule Suc.IH)
  with a show ?case by (subst shift_amt.simps) simp
qed

lemma rne_shift_exact: "rne_shift (q * 2 ^ k) k = q"
  by (simp add: rne_shift_def)

lemma rne_shift_tie: "rne_shift ((2 * q + 1) * 2 ^ k) (Suc k) = (if odd q then q + 1 else q)"
proof -
  have n: "(2 * q + 1) * 2 ^ k = q * 2 ^ Suc k + 2 ^ k" by (simp add: algebra_simps)
  have d: "(q * 2 ^ Suc k + 2 ^ k) div 2 ^ Suc k = q"
    by (rule div_nat_eqI) (simp_all add: algebra_simps)
  have m: "(q * 2 ^ Suc k + 2 ^ k) mod 2 ^ Suc k = 2 ^ k"
    by simp
  show ?thesis unfolding rne_shift_def Let_def n d m by simp
qed

lemma rne_shift_add:
  assumes "even c"
  shows "rne_shift (c * 2 ^ k + n) k = c + rne_shift n k"
proof -
  have d: "(c * 2 ^ k + n) div 2 ^ k = c + n div 2 ^ k" by simp
  have m: "(c * 2 ^ k + n) mod 2 ^ k = n mod 2 ^ k" by simp
  show ?thesis unfolding rne_shift_def Let_def d m using assms by simp
qed

lemma rne_shift_le: "rne_shift n k \<le> n div 2 ^ k + 1"
  by (simp add: rne_shift_def Let_def)


lemma div_mod_split: "(n mod (a * b)) div a = (n div a) mod (b::nat)"
proof (cases "a = 0")
  case True
  then show ?thesis by simp
next
  case False
  have "n mod (a * b) = a * (n div a mod b) + n mod a" by (rule mod_mult2_eq)
  moreover have "(a * (n div a mod b) + n mod a) div a = n div a mod b"
    using False by simp
  ultimately show ?thesis by simp
qed

lemma f32_exp_mag: "f32_exp (take_bit 31 x) = f32_exp x"
  using div_mod_split [of "unat x" 8388608 256] by (simp add: f32_exp_nat unat_mag)

lemma f32_mant_mag: "f32_mant (take_bit 31 x) = f32_mant x"
proof -
  have "unat x mod 2147483648 mod 8388608 = unat x mod 8388608"
    by (rule mod_mod_cancel) simp
  then show ?thesis by (simp add: f32_mant_nat unat_mag)
qed

lemma f32_units_mag: "f32_units (take_bit 31 x) = f32_units x"
  by (simp add: f32_units_def f32_exp_mag f32_mant_mag)

lemma round_mag_exact:
  assumes "8388608 \<le> q" and "q < 16777216" and "k \<le> 253"
  shows "unat (f32_round_mag 0 (q * 2 ^ k)) = 8388608 * k + q"
proof -
  have s: "shift_amt (q * 2 ^ k) = k"
    using assms by (intro shift_amt_range) simp_all
  have "8388608 * k \<le> 8388608 * 253" using assms(3) by simp
  then have b: "8388608 * k + q < 2139095040" using assms(2) by simp
  then have "f32_round_mag 0 (q * 2 ^ k) = of_nat (8388608 * k + q)"
    by (simp add: f32_round_mag_def s rne_shift_exact mult.commute)
  moreover have "unat (of_nat (8388608 * k + q) :: u32) = 8388608 * k + q"
    using b by (simp only: unat_of_nat) simp
  ultimately show ?thesis by simp
qed

lemma units_of_pattern:
  assumes "unat w = 8388608 * k + q" and "8388608 \<le> q" and "q < 16777216" and "k \<le> 253"
  shows "f32_units w = q * 2 ^ k"
proof -
  have d: "unat w div 8388608 = k + 1"
    using assms by (intro div_nat_eqI) simp_all
  have m: "unat w mod 8388608 = q - 8388608"
  proof -
    have "q mod 8388608 = q - 8388608" using assms by (simp add: le_mod_geq)
    then show ?thesis using assms by simp
  qed
  have e: "Suc k mod 256 = Suc k" using assms(4) by simp
  show ?thesis using assms(2) by (simp add: f32_units_def f32_exp_nat f32_mant_nat d m e)
qed


lemma f32_add_magic:
  assumes "unat fu < 947912704"
  shows "f32_add fu 0x3f000000 - 0x3f000000 = of_nat (rne_shift (f32_units fu) 125)"
proof -
  define n where "n = f32_units fu"
  define r where "r = rne_shift n 125"
  have mg: "unat fu mod 2147483648 = unat fu" using assms by simp
  have fin: "\<not> f32_isnan fu" "\<not> f32_isinf fu" "\<not> f32_signbit fu"
    using assms by (simp_all add: f32_isnan_nat f32_isinf_nat f32_signbit_nat mg)
  have mfin: "\<not> f32_isnan 0x3f000000" "\<not> f32_isinf 0x3f000000" "\<not> f32_signbit 0x3f000000"
    by (simp_all add: f32_defs)
  have mu: "f32_units 0x3f000000 = 8388608 * 2 ^ 125"
    by (simp add: f32_defs)
  have "f32_units fu < f32_units 0x38800000"
    using assms by (intro units_mono) (simp add: mg)
  then have nb: "n < 2048 * 2 ^ 124"
    by (simp add: n_def f32_defs)
  define N where "N = 8388608 * 2 ^ 125 + n"
  have Npos: "0 < N" by (simp add: N_def)
  have s: "shift_amt N = 125"
    unfolding N_def using nb by (intro shift_amt_range) simp_all
  have q: "rne_shift N 125 = 8388608 + r"
    unfolding r_def N_def by (rule rne_shift_add) simp
  have "n div 2 ^ 125 < 1024"
    using nb by (simp add: less_mult_imp_div_less)
  then have rb: "r \<le> 1024"
    using rne_shift_le [of n 125] by (simp add: r_def)
  have z: "f32_sval fu + f32_sval 0x3f000000 = int N"
    using fin(3) mfin(3) by (simp add: f32_sval_def mu n_def N_def)
  have "f32_add fu 0x3f000000 = f32_round_mag 0 N"
    unfolding f32_add_def Let_def z using fin mfin Npos by simp
  also have "\<dots> = of_nat (125 * 8388608 + (8388608 + r))"
    unfolding f32_round_mag_def Let_def using rb by (simp add: s q)
  also have "\<dots> = 0x3f000000 + of_nat r" by simp
  finally show ?thesis by (simp add: r_def n_def)
qed


section \<open>The two finite paths of the half-precision encoder\<close>

lemma ucast_of_nat_small: "r < 65536 \<Longrightarrow> (ucast (of_nat r :: u32) :: u16) = of_nat r"
  by (simp add: word_unat_eq_iff unsigned_ucast_eq take_bit_eq_mod unat_of_nat)

lemma float2half_subnormal:
  assumes "unat x mod 2147483648 < 947912704"
  shows "float2half x = of_nat (rne_shift (f32_units x) 125) OR (if f32_signbit x then 0x8000 else 0)"
proof -
  define fu where "fu = take_bit 31 x"
  have u: "unat fu < 947912704" using assms by (simp add: fu_def unat_mag)
  have a: "\<not> 0x47800000 \<le> fu" "fu < 0x38800000"
    using u by (simp_all add: word_le_nat_alt word_less_nat_alt)
  have "f32_units fu < f32_units 0x38800000"
    using u by (intro units_mono) simp
  then have "f32_units fu < 2048 * 2 ^ 124" by (simp add: f32_defs)
  then have "f32_units fu div 2 ^ 125 < 1024" by (simp add: less_mult_imp_div_less)
  then have r: "rne_shift (f32_units fu) 125 < 65536"
    using rne_shift_le [of "f32_units fu" 125] by simp
  have "float2half x = ucast (f32_add fu 0x3f000000 - 0x3f000000) OR (if f32_signbit x then 0x8000 else 0)"
    unfolding float2half_alt Let_def using a by (simp add: fu_def)
  also have "ucast (f32_add fu 0x3f000000 - 0x3f000000) = (of_nat (rne_shift (f32_units fu) 125) :: u16)"
    using r by (simp only: f32_add_magic [OF u] ucast_of_nat_small)
  finally show ?thesis by (simp add: fu_def f32_units_mag)
qed

lemma float2half_normal:
  assumes "947912704 \<le> unat x mod 2147483648" and "unat x mod 2147483648 < 1199570944"
  shows "float2half x =
     of_nat ((unat x mod 2147483648 - 939524096 + 4095 + (unat x div 8192) mod 2) div 8192)
       OR (if f32_signbit x then 0x8000 else 0)"
proof -
  define fu where "fu = take_bit 31 x"
  define M where "M = unat x mod 2147483648"
  have u: "unat fu = M" by (simp add: fu_def M_def unat_mag)
  have a: "\<not> 0x47800000 \<le> fu" "\<not> fu < 0x38800000"
    using assms by (simp_all add: word_le_nat_alt word_less_nat_alt u M_def)
  define l where "l = M div 8192 mod 2"
  have l: "l < 2" by (simp add: l_def)
  have l': "l = unat x div 8192 mod 2"
  proof -
    have "M div 8192 mod 2 = (unat x mod (8192 * 262144)) div 8192 mod 2" by (simp add: M_def)
    also have "\<dots> = unat x div 8192 mod 262144 mod 2" by (simp only: div_mod_split)
    also have "\<dots> = unat x div 8192 mod 2" by (rule mod_mod_cancel) simp
    finally show ?thesis by (simp add: l_def)
  qed
  have ml: "unat (drop_bit 13 fu AND 1) = l"
    using assms by (simp add: and_one_eq unat_mod_distrib unat_div_distrib drop_bit_eq_div u l_def M_def)
  have Mb: "947912704 \<le> M" "M < 1199570944" using assms by (simp_all add: M_def)
  define D where "D = M - 939524096 + 4095 + l"
  have D: "D < 4294967296" "M + 3355447295 + l = 4294967296 + D"
    using Mb l by (simp_all add: D_def)
  define W where "W = fu + 0xc8000fff + (drop_bit 13 fu AND 1)"
  have "unat W = (M + 3355447295 + l) mod 4294967296"
    by (simp add: W_def unat_word_ariths ml u mod_simps)
  also have "\<dots> = D"
    using D(1) by (simp only: D(2) mod_add_self1 mod_less)
  finally have s: "unat W = D" .
  have d: "D div 8192 < 65536"
    using Mb l by (simp add: less_mult_imp_div_less D_def)
  have "unat (ucast (drop_bit 13 W) :: u16) = D div 8192"
    using d by (simp add: unsigned_ucast_eq take_bit_eq_mod drop_bit_eq_div unat_div_distrib s)
  then have "(ucast (drop_bit 13 W) :: u16) = of_nat (D div 8192)"
    using d by (simp add: word_unat_eq_iff unat_of_nat)
  moreover have "float2half x = ucast (drop_bit 13 W) OR (if f32_signbit x then 0x8000 else 0)"
    unfolding float2half_alt Let_def W_def using a by (simp add: fu_def)
  ultimately show ?thesis by (simp add: l' M_def D_def)
qed


section \<open>The half-precision decoder\<close>

lemma or_exp_word: "\<not> bit w n \<Longrightarrow> (w :: 'a::len word) OR 2 ^ n = w + 2 ^ n"
  by (rule disjunctive_add_eq_or [symmetric]) (simp add: and_exp_word)

lemma u32_or_sign:
  assumes "unat (w::u32) < 2147483648"
  shows "unat (w OR (if c then 0x80000000 else 0)) = unat w + (if c then 2147483648 else 0)"
proof (cases c)
  case True
  have "\<not> bit w 31" using assms by (simp add: f32_signbit_nat flip: f32_signbit_def)
  then have "w OR 0x80000000 = w + 0x80000000"
    using or_exp_word [of w 31] by simp
  then show ?thesis using assms True by (simp add: unat_word_ariths)
next
  case False
  then show ?thesis by simp
qed

lemma u16_or_sign:
  assumes "unat (w::u16) < 32768"
  shows "unat (w OR (if c then 0x8000 else 0)) = unat w + (if c then 32768 else 0)"
proof (cases c)
  case True
  have "\<not> bit w 15" using assms by (simp add: u16_sign_nat)
  then have "w OR 0x8000 = w + 0x8000"
    using or_exp_word [of w 15] by simp
  then show ?thesis using assms True by (simp add: unat_word_ariths)
next
  case False
  then show ?thesis by simp
qed

lemma u32_or_sign_mag:
  assumes "unat (w::u32) < 2147483648"
  shows "unat (w OR (if c then 0x80000000 else 0)) mod 2147483648 = unat w"
    and "f32_signbit (w OR (if c then 0x80000000 else 0)) = c"
  using assms by (simp_all add: u32_or_sign f32_signbit_nat)

lemma f16_exp_nat: "f16_exp p = (unat p div 1024) mod 32"
  by (simp add: f16_exp_def take_bit_eq_mod drop_bit_eq_div unat_mod_distrib unat_div_distrib)

lemma f16_mant_nat: "f16_mant p = unat p mod 1024"
  by (simp add: f16_mant_def take_bit_eq_mod unat_mod_distrib)

lemma f16_mag_split: "unat p mod 32768 = 1024 * f16_exp p + f16_mant p"
  using mod_mult2_eq [of "unat p" 1024 32] by (simp add: f16_exp_nat f16_mant_nat)

lemma f16_exp_lt: "f16_exp p < 32"
  by (simp add: f16_exp_nat)

lemma f16_mant_lt: "f16_mant p < 1024"
  by (simp add: f16_mant_nat)

lemma and_field_word:
  "(w :: 'a::len word) AND push_bit n (mask k) = push_bit n (take_bit k (drop_bit n w))"
  by (rule bit_word_eqI) (auto simp: bit_simps)

lemma and_shiftedExp: "(0x0F800000 :: u32) AND w = push_bit 23 (take_bit 5 (drop_bit 23 w))"
  using and_field_word [of w 23 5] by (simp add: mask_eq_exp_minus_1 and.commute)

lemma sign32:
  "(push_bit 16 (ucast ((p::u16) AND 0x8000)) :: u32) = (if bit p 15 then 0x80000000 else 0)"
  using and_exp_word [of p 15] by simp

lemma low15: "(p::u16) AND 0x7fff = take_bit 15 p"
  using take_bit_eq_mask [of 15 p] by (simp add: mask_eq_exp_minus_1)

lemma half2float_alt:
  "half2float p =
     (let f0 = push_bit 13 (ucast (take_bit 15 p)) :: u32;
          exp = 0x0F800000 AND f0;
          f1 = f0 + 0x38000000;
          f2 = (if exp = 0x0F800000 then f1 + 0x38000000
                else if exp = 0 then f32_sub (f1 + 0x800000) 0x38800000
                else f1)
      in f2 OR (if bit p 15 then 0x80000000 else 0))"
  unfolding half2float_def Let_def k_defs sign32 low15 by simp

lemma half2float_f0: "unat (push_bit 13 (ucast (take_bit 15 p :: u16)) :: u32) = 8192 * (unat p mod 32768)"
proof -
  have "unat p mod 32768 < 32768" by simp
  then have "8192 * (unat p mod 32768) < 4294967296" by simp
  then show ?thesis
    by (simp add: push_bit_eq_mult take_bit_eq_mod unsigned_ucast_eq unat_word_ariths unat_mod_distrib)
qed

lemma half2float_exp:
  "unat ((0x0F800000 :: u32) AND push_bit 13 (ucast (take_bit 15 p :: u16))) = 8388608 * f16_exp p"
proof -
  define f0 :: u32 where "f0 = push_bit 13 (ucast (take_bit 15 p))"
  have f0: "unat f0 = 8192 * (unat p mod 32768)" by (simp add: f0_def half2float_f0)
  have "unat f0 div 8388608 = (unat p mod (1024 * 32)) div 1024"
    using div_mult2_eq [of "8192 * (unat p mod 32768)" 8192 1024] by (simp add: f0)
  also have "\<dots> = f16_exp p" by (simp only: div_mod_split f16_exp_nat)
  finally have e: "unat f0 div 8388608 = f16_exp p" .
  have "unat (0x0F800000 AND f0) = 8388608 * (f16_exp p mod 32) mod 4294967296"
    using f16_exp_lt [of p]
    by (simp add: and_shiftedExp push_bit_eq_mult take_bit_eq_mod unat_word_ariths
        unat_mod_distrib unat_div_distrib drop_bit_eq_div e mod_simps)
  also have "\<dots> = 8388608 * f16_exp p"
    using f16_exp_lt [of p] by simp
  finally show ?thesis by (simp add: f0_def)
qed


lemma half2float_infnan:
  assumes "f16_exp p = 31"
  shows "unat (half2float p) mod 2147483648 = 2139095040 + 8192 * f16_mant p"
    and "f32_signbit (half2float p) = bit p 15"
proof -
  define f0 :: u32 where "f0 = push_bit 13 (ucast (take_bit 15 p))"
  have f0: "unat f0 = 8192 * (31744 + f16_mant p)"
    using assms by (simp add: f0_def half2float_f0 f16_mag_split)
  have e: "0x0F800000 AND f0 = 0x0F800000"
    using assms by (simp add: word_unat_eq_iff half2float_exp f0_def)
  have m: "f16_mant p < 1024" by (rule f16_mant_lt)
  have "unat (f0 + 0x38000000 + 0x38000000) = 2139095040 + 8192 * f16_mant p"
    using m by (simp add: unat_word_ariths f0 mod_simps)
  moreover have "half2float p = (f0 + 0x38000000 + 0x38000000) OR (if bit p 15 then 0x80000000 else 0)"
    unfolding half2float_alt Let_def using e by (simp add: f0_def)
  ultimately show "unat (half2float p) mod 2147483648 = 2139095040 + 8192 * f16_mant p"
    and "f32_signbit (half2float p) = bit p 15"
    using m by (simp_all add: u32_or_sign_mag)
qed

lemma half2float_normal:
  assumes "0 < f16_exp p" and "f16_exp p < 31"
  shows "unat (half2float p) mod 2147483648 = 939524096 + 8192 * (unat p mod 32768)"
    and "f32_signbit (half2float p) = bit p 15"
proof -
  define f0 :: u32 where "f0 = push_bit 13 (ucast (take_bit 15 p))"
  have f0: "unat f0 = 8192 * (unat p mod 32768)"
    by (simp add: f0_def half2float_f0)
  have e: "0x0F800000 AND f0 \<noteq> 0x0F800000" "0x0F800000 AND f0 \<noteq> 0"
    using assms by (simp_all add: word_unat_eq_iff half2float_exp f0_def)
  have h: "unat p mod 32768 < 32768" by simp
  have "unat (f0 + 0x38000000) = 939524096 + 8192 * (unat p mod 32768)"
    using h by (simp add: unat_word_ariths f0 mod_simps)
  moreover have "half2float p = (f0 + 0x38000000) OR (if bit p 15 then 0x80000000 else 0)"
    unfolding half2float_alt Let_def using e by (simp add: f0_def)
  ultimately show "unat (half2float p) mod 2147483648 = 939524096 + 8192 * (unat p mod 32768)"
    and "f32_signbit (half2float p) = bit p 15"
    using h by (simp_all add: u32_or_sign_mag)
qed


lemma scaled_mantissa:
  assumes "0 < m" and "m < (1024::nat)"
  obtains q k where "8388608 \<le> q" and "q < 16777216" and "k \<le> 111"
    and "m * 2 ^ 125 = q * 2 ^ k"
proof -
  obtain j where j: "2 ^ j \<le> m" "m < 2 ^ (j + 1)"
    using ex_power_ivl1 [of 2 m] assms(1) by auto
  have "(2::nat) ^ j < 2 ^ 10" using j(1) assms(2) by simp
  then have j9: "j < 10" by (rule power_less_imp_less_exp [rotated]) simp
  define q where "q = m * 2 ^ (23 - j)"
  have p23: "(2::nat) ^ j * 2 ^ (23 - j) = 2 ^ 23"
    using j9 by (simp flip: power_add)
  have p24: "(2::nat) ^ (j + 1) * 2 ^ (23 - j) = 2 ^ 24"
    using j9 by (simp flip: power_add)
  have p125: "(2::nat) ^ (23 - j) * 2 ^ (102 + j) = 2 ^ 125"
    using j9 by (simp flip: power_add)
  have "2 ^ j * 2 ^ (23 - j) \<le> q"
    unfolding q_def using j(1) by (rule mult_le_mono1)
  then have a: "8388608 \<le> q" by (simp only: p23) simp
  have "q < 2 ^ (j + 1) * 2 ^ (23 - j)"
    unfolding q_def using j(2) by (rule mult_less_mono1) simp
  then have b: "q < 16777216" by (simp only: p24) simp
  have "q * 2 ^ (102 + j) = m * (2 ^ (23 - j) * 2 ^ (102 + j))"
    by (simp add: q_def mult.assoc)
  then have c: "m * 2 ^ 125 = q * 2 ^ (102 + j)" by (simp only: p125)
  have d: "102 + j \<le> 111" using j9 by simp
  show thesis using a b d c by (rule that)
qed

lemma f32_sub_magic:
  assumes "unat A = 947912704 + 8192 * m" and "m < 1024"
  shows "unat (f32_sub A 0x38800000) < 947912704"
    and "f32_units (f32_sub A 0x38800000) = m * 2 ^ 125"
proof -
  have mg: "unat A mod 2147483648 = unat A" using assms by simp
  have fin: "\<not> f32_isnan A" "\<not> f32_isinf A" "\<not> f32_signbit A"
    using assms by (simp_all add: f32_isnan_nat f32_isinf_nat f32_signbit_nat mg)
  have bfin: "\<not> f32_isnan 0xB8800000" "\<not> f32_isinf 0xB8800000" "f32_signbit 0xB8800000"
    by (simp_all add: f32_defs)
  have bu: "f32_units 0xB8800000 = 8388608 * 2 ^ 112"
    by (simp add: f32_defs)
  have d: "unat A div 8388608 = 113"
    using assms by (intro div_nat_eqI) simp_all
  have r: "unat A mod 8388608 = 8192 * m"
  proof -
    have "unat A = 113 * 8388608 + 8192 * m" using assms by simp
    moreover have "(113 * 8388608 + 8192 * m) mod 8388608 = 8192 * m"
      using assms(2) by (simp only: mod_mult_self3) simp
    ultimately show ?thesis by (simp only:)
  qed
  have au: "f32_units A = (8388608 + 8192 * m) * 2 ^ 112"
    by (simp add: f32_units_def f32_exp_nat f32_mant_nat d r)
  define N where "N = m * 2 ^ 125"
  have N0: "N = 0 \<longleftrightarrow> m = 0" by (simp add: N_def)
  have "N = 8192 * 2 ^ 112 * m" by (simp add: N_def)
  then have "int (f32_units A) - int (f32_units 0xB8800000) = int N"
    by (simp only: au bu) (simp add: algebra_simps)
  then have z: "f32_sval A + f32_sval 0xB8800000 = int N"
    using fin(3) bfin(3) by (simp add: f32_sval_def)
  have sub: "f32_sub A 0x38800000 = (if m = 0 then 0 else f32_round_mag 0 N)"
  proof -
    have "f32_sub A 0x38800000 = f32_add A 0xB8800000" by (simp add: f32_sub_def)
    also have "\<dots> = (if m = 0 then 0 else f32_round_mag 0 N)"
      unfolding f32_add_def Let_def z using fin bfin N0 by simp
    finally show ?thesis .
  qed
  have *: "unat (f32_sub A 0x38800000) < 947912704 \<and> f32_units (f32_sub A 0x38800000) = N"
  proof (cases "m = 0")
    case True
    then show ?thesis by (simp add: sub N_def f32_units_def f32_exp_def f32_mant_def)
  next
    case False
    then obtain q k where qk: "8388608 \<le> q" "q < 16777216" "k \<le> 111" "m * 2 ^ 125 = q * 2 ^ k"
      using scaled_mantissa [of m] assms(2) by auto
    have N: "N = q * 2 ^ k" by (simp only: N_def qk(4))
    have u: "unat (f32_round_mag 0 (q * 2 ^ k)) = 8388608 * k + q"
      using qk by (intro round_mag_exact) simp_all
    then have "f32_units (f32_round_mag 0 (q * 2 ^ k)) = q * 2 ^ k"
      using qk by (intro units_of_pattern) simp_all
    moreover have "8388608 * k \<le> 8388608 * 111" using qk(3) by simp
    ultimately show ?thesis using False qk(2) u by (simp add: sub N)
  qed
  show "unat (f32_sub A 0x38800000) < 947912704" using * by simp
  show "f32_units (f32_sub A 0x38800000) = m * 2 ^ 125" using * by (simp only: N_def)
qed


lemma half2float_subnormal:
  assumes "f16_exp p = 0"
  shows "unat (half2float p) mod 2147483648 < 947912704"
    and "f32_units (half2float p) = f16_mant p * 2 ^ 125"
    and "f32_signbit (half2float p) = bit p 15"
proof -
  define f0 :: u32 where "f0 = push_bit 13 (ucast (take_bit 15 p))"
  define A where "A = f0 + 0x38000000 + 0x800000"
  define W where "W = f32_sub A 0x38800000"
  have m: "f16_mant p < 1024" by (rule f16_mant_lt)
  have f0: "unat f0 = 8192 * f16_mant p"
    using assms by (simp add: f0_def half2float_f0 f16_mag_split)
  have e: "0x0F800000 AND f0 = 0"
    using assms by (simp add: word_unat_eq_iff half2float_exp f0_def)
  have A: "unat A = 947912704 + 8192 * f16_mant p"
    using m by (simp add: A_def unat_word_ariths f0 mod_simps)
  have W: "unat W < 947912704" "f32_units W = f16_mant p * 2 ^ 125"
    unfolding W_def using A m by (rule f32_sub_magic)+
  have y: "half2float p = W OR (if bit p 15 then 0x80000000 else 0)"
    unfolding half2float_alt Let_def W_def A_def using e by (simp add: f0_def)
  have W31: "unat W < 2147483648" using W(1) by simp
  have mg: "unat (half2float p) mod 2147483648 = unat W"
    unfolding y using W31 by (rule u32_or_sign_mag)
  show "unat (half2float p) mod 2147483648 < 947912704"
    using W(1) by (simp only: mg)
  show "f32_signbit (half2float p) = bit p 15"
    unfolding y using W31 by (rule u32_or_sign_mag)
  have "take_bit 31 (half2float p) = W"
    by (simp add: word_unat_eq_iff unat_mag mg)
  then have "f32_units (half2float p) = f32_units W"
    using f32_units_mag [of "half2float p"] by simp
  then show "f32_units (half2float p) = f16_mant p * 2 ^ 125"
    by (simp only: W(2))
qed

lemma float2half_top:
  assumes "1199570944 \<le> unat x mod 2147483648"
  shows "float2half x = (if 2139095040 < unat x mod 2147483648 then 0x7e00 else 0x7c00)
                           OR (if f32_signbit x then 0x8000 else 0)"
  unfolding float2half_alt Let_def using assms
  by (simp add: word_le_nat_alt word_less_nat_alt unat_mag)

lemma u16_recompose:
  "(of_nat (unat p mod 32768) :: u16) OR (if bit p 15 then 0x8000 else 0) = p"
proof -
  have h: "unat p mod 32768 < 32768" by simp
  then have u: "unat (of_nat (unat p mod 32768) :: u16) = unat p mod 32768"
    by (simp only: unat_of_nat) simp
  have "unat ((of_nat (unat p mod 32768) :: u16) OR (if bit p 15 then 0x8000 else 0))
      = unat p mod 32768 + (if bit p 15 then 32768 else 0)"
    using h by (simp only: u16_or_sign u)
  also have "\<dots> = unat p" using u16_split_sign [of p] by simp
  finally show ?thesis by (simp only: word_unat_eq_iff)
qed

text \<open>
  C1. For every f16 pattern \<open>p\<close> that is not a NaN (a normal or subnormal number, a
  zero or an Infinity), encoding the decoded value gives \<open>p\<close> back. For a NaN pattern
  the result is again a NaN pattern with the sign bit of \<open>p\<close>.
\<close>

theorem half_roundtrip:
  "(\<not> f16_isnan p \<longrightarrow> float2half (half2float p) = p) \<and>
   (f16_isnan p \<longrightarrow>
      f16_isnan (float2half (half2float p)) \<and>
      bit (float2half (half2float p)) 15 = bit p 15)"
proof -
  define y where "y = half2float p"
  define s :: u16 where "s = (if bit p 15 then 0x8000 else 0)"
  consider (sub) "f16_exp p = 0" | (norm) "0 < f16_exp p" "f16_exp p < 31" | (top) "f16_exp p = 31"
    using f16_exp_lt [of p] by linarith
  then show ?thesis
  proof cases
    case sub
    have "float2half y = of_nat (rne_shift (f32_units y) 125) OR (if f32_signbit y then 0x8000 else 0)"
      unfolding y_def using sub by (intro float2half_subnormal half2float_subnormal)
    also have "f32_units y = f16_mant p * 2 ^ 125"
      unfolding y_def using sub by (rule half2float_subnormal)
    also have "rne_shift (f16_mant p * 2 ^ 125) 125 = f16_mant p" by (rule rne_shift_exact)
    also have "f32_signbit y = bit p 15"
      unfolding y_def using sub by (rule half2float_subnormal)
    also have "f16_mant p = unat p mod 32768"
      using sub by (simp add: f16_mag_split)
    finally have "float2half y = p" by (simp only: u16_recompose)
    then show ?thesis using sub by (simp add: y_def f16_isnan_def)
  next
    case norm
    define h where "h = unat p mod 32768"
    have h: "1024 \<le> h" "h < 31744"
      using norm f16_mant_lt [of p] by (simp_all add: h_def f16_mag_split)
    have mg: "unat y mod 2147483648 = 939524096 + 8192 * h"
      unfolding y_def h_def using norm by (rule half2float_normal)
    have sg: "f32_signbit y = bit p 15"
      unfolding y_def using norm by (rule half2float_normal)
    define l where "l = (unat y div 8192) mod 2"
    have l: "l < 2" by (simp add: l_def)
    have "float2half y =
       of_nat ((unat y mod 2147483648 - 939524096 + 4095 + l) div 8192)
         OR (if f32_signbit y then 0x8000 else 0)"
      unfolding l_def using h by (intro float2half_normal) (simp_all add: mg)
    also have "(unat y mod 2147483648 - 939524096 + 4095 + l) div 8192 = h"
      using l by (simp add: mg div_nat_eqI)
    finally have "float2half y = p" by (simp only: sg h_def u16_recompose)
    then show ?thesis using norm by (simp add: y_def f16_isnan_def)
  next
    case top
    have mg: "unat y mod 2147483648 = 2139095040 + 8192 * f16_mant p"
      unfolding y_def using top by (rule half2float_infnan)
    have sg: "f32_signbit y = bit p 15"
      unfolding y_def using top by (rule half2float_infnan)
    have r: "float2half y = (if 0 < f16_mant p then 0x7e00 else 0x7c00) OR s"
      using float2half_top [of y] by (simp add: mg sg s_def)
    show ?thesis
    proof (cases "f16_mant p = 0")
      case True
      then have "unat p mod 32768 = 31744" using top by (simp add: f16_mag_split)
      then have "float2half y = p"
        using u16_recompose [of p] True by (simp add: r s_def)
      then show ?thesis using True by (simp add: y_def f16_isnan_def)
    next
      case False
      then have v: "float2half y = 0x7e00 OR s" by (simp add: r)
      have u: "unat (float2half y) = 32256 + (if bit p 15 then 32768 else 0)"
        unfolding v s_def using u16_or_sign [of "0x7e00" "bit p 15"] by simp
      have "f16_isnan (float2half y)"
        by (simp add: f16_isnan_def f16_exp_nat f16_mant_nat u)
      moreover have "bit (float2half y) 15 = bit p 15"
        by (simp add: u16_sign_nat u)
      ultimately show ?thesis using False top by (simp add: y_def f16_isnan_def)
    qed
  qed
qed

theorem half_roundtrip_witness:
  "\<not> f16_isnan 0x0001 \<and> float2half (half2float 0x0001) = 0x0001 \<and>
   \<not> f16_isnan 0xFBFF \<and> float2half (half2float 0xFBFF) = 0xFBFF \<and>
   \<not> f16_isnan 0x7C00 \<and> float2half (half2float 0x7C00) = 0x7C00 \<and>
   f16_isnan 0xFC01 \<and> f16_isnan (float2half (half2float 0xFC01)) \<and>
   bit (float2half (half2float 0xFC01)) 15 = bit (0xFC01 :: u16) 15"
  using half_roundtrip [of "0x0001"] half_roundtrip [of "0xFBFF"] half_roundtrip [of "0x7C00"]
    half_roundtrip [of "0xFC01"]
  by (simp add: f16_defs)


section \<open>Ties\<close>

lemma float2bfloat_tie:
  assumes "\<not> f32_isnan x" and "take_bit 16 x = 0x8000"
  shows "float2bfloat x = (if bit x 16 then ucast (drop_bit 16 x) + 1 else ucast (drop_bit 16 x))"
    and "\<not> bit (float2bfloat x) 0"
proof -
  define T where "T = unat x div 65536"
  define l where "l = T mod 2"
  have l: "l < 2" by (simp add: l_def)
  have "unat (take_bit 16 x) = 32768" by (simp add: assms(2))
  then have r: "unat x mod 65536 = 32768"
    by (simp add: take_bit_eq_mod unat_mod_distrib)
  have X: "unat x = 65536 * T + 32768"
    using div_mult_mod_eq [of "unat x" 65536] by (simp add: T_def r)
  have "unat x mod 2147483648 \<le> 2139095040"
    using assms(1) by (simp add: f32_isnan_nat)
  then have "unat x \<le> 4286578688"
    using unat_split_sign [of x] by (simp split: if_splits)
  then have T: "T < 65408" by (simp add: X)
  have "(unat x + 32767 + l) div 65536 = T + l"
    using l by (simp add: X div_nat_eqI)
  then have u: "unat (float2bfloat x) = T + l"
    using assms(1) by (simp add: float2bfloat_nat l_def T_def)
  have t: "unat (ucast (drop_bit 16 x) :: u16) = T"
    using T by (simp add: unsigned_ucast_eq take_bit_eq_mod drop_bit_eq_div unat_div_distrib T_def)
  have b: "bit x 16 \<longleftrightarrow> l = 1"
    by (simp add: bit_nat_word l_def T_def odd_iff_mod_2_eq_one)
  have "unat (if bit x 16 then ucast (drop_bit 16 x) + 1 else ucast (drop_bit 16 x) :: u16) = T + l"
    using T l by (simp add: b unat_word_ariths t)
  then show "float2bfloat x = (if bit x 16 then ucast (drop_bit 16 x) + 1 else ucast (drop_bit 16 x))"
    by (simp only: word_unat_eq_iff u)
  have "even (T + l)" by (simp add: l_def)
  then show "\<not> bit (float2bfloat x) 0" by (simp add: bit_nat_word u)
qed


lemma unat_of_nat16: "n < 65536 \<Longrightarrow> unat (of_nat n :: u16) = n"
  by (simp add: unat_of_nat)

lemma float2half_tie_normal:
  assumes "0x38800000 \<le> take_bit 31 y" and "take_bit 31 y < 0x47800000"
    and "take_bit 13 y = 0x1000"
  shows "float2half y =
      (if bit y 13 then ucast (drop_bit 13 (take_bit 31 y - 0x38000000)) + 1
       else ucast (drop_bit 13 (take_bit 31 y - 0x38000000)))
      OR (if f32_signbit y then 0x8000 else 0)"
    and "\<not> bit (float2half y) 0"
proof -
  define M where "M = unat y mod 2147483648"
  define T where "T = (M - 939524096) div 8192"
  define l where "l = (unat y div 8192) mod 2"
  define t :: u16 where "t = ucast (drop_bit 13 (take_bit 31 y - 0x38000000))"
  have l: "l < 2" by (simp add: l_def)
  have Mb: "947912704 \<le> M" "M < 1199570944"
    using assms(1,2) by (simp_all add: word_le_nat_alt word_less_nat_alt unat_mag M_def)
  have "unat (take_bit 13 y) = 4096" by (simp add: assms(3))
  then have r: "unat y mod 8192 = 4096"
    by (simp add: take_bit_eq_mod unat_mod_distrib)
  have "M mod 8192 = unat y mod 8192"
    unfolding M_def by (rule mod_mod_cancel) simp
  then have Mr: "M mod 8192 = 4096" by (simp add: r)
  have "(M - 939524096) mod 8192 = 4096"
  proof -
    have "M = (M - 939524096) + 8192 * 114688" using Mb by simp
    then have "M mod 8192 = ((M - 939524096) + 8192 * 114688) mod 8192" by simp
    also have "\<dots> = (M - 939524096) mod 8192" by (simp only: mod_mult_self2)
    finally show ?thesis by (simp add: Mr)
  qed
  then have D: "M - 939524096 = 8192 * T + 4096"
    using div_mult_mod_eq [of "M - 939524096" 8192] by (simp add: T_def)
  have T: "T < 31744"
    using Mb D by simp
  have lT: "l = T mod 2"
  proof -
    have "M div 8192 = (unat y mod (8192 * 262144)) div 8192" by (simp add: M_def)
    also have "\<dots> = unat y div 8192 mod 262144" by (simp only: div_mod_split)
    finally have "M div 8192 mod 2 = unat y div 8192 mod 262144 mod 2" by simp
    also have "\<dots> = l" unfolding l_def by (rule mod_mod_cancel) simp
    finally have a: "M div 8192 mod 2 = l" .
    have "M = 8192 * (T + 114688) + 4096" using D Mb by simp
    then have "M div 8192 = T + 114688" by (simp add: div_nat_eqI)
    then have "(T + 114688) mod 2 = l" using a by simp
    then show ?thesis by presburger
  qed
  have "float2half y = of_nat ((M - 939524096 + 4095 + l) div 8192)
       OR (if f32_signbit y then 0x8000 else 0)"
    unfolding M_def l_def using Mb by (intro float2half_normal) (simp_all add: M_def)
  also have "(M - 939524096 + 4095 + l) div 8192 = T + l"
    using l by (simp add: D div_nat_eqI)
  finally have f: "float2half y = of_nat (T + l) OR (if f32_signbit y then 0x8000 else 0)" .
  have ut: "unat t = T"
  proof -
    have "unat (take_bit 31 y - 0x38000000) = M - 939524096"
      using Mb by (simp add: unat_sub word_le_nat_alt unat_mag M_def)
    then show ?thesis
      using T by (simp add: t_def unsigned_ucast_eq take_bit_eq_mod drop_bit_eq_div
          unat_div_distrib T_def)
  qed
  have b: "bit y 13 \<longleftrightarrow> l = 1"
    by (simp add: bit_nat_word l_def odd_iff_mod_2_eq_one)
  have "unat (if bit y 13 then t + 1 else t) = T + l"
    using T l by (simp add: b unat_word_ariths ut)
  moreover have TL: "unat (of_nat (T + l) :: u16) = T + l"
    using T l by (intro unat_of_nat16) simp
  ultimately have "(of_nat (T + l) :: u16) = (if bit y 13 then t + 1 else t)"
    by (simp only: word_unat_eq_iff)
  then show "float2half y =
      (if bit y 13 then ucast (drop_bit 13 (take_bit 31 y - 0x38000000)) + 1
       else ucast (drop_bit 13 (take_bit 31 y - 0x38000000)))
      OR (if f32_signbit y then 0x8000 else 0)"
    by (simp only: f t_def)
  have "T + l < 32768" using T l by simp
  then have "unat (of_nat (T + l) :: u16) < 32768"
    by (simp only: TL)
  then have "unat (float2half y) = unat (of_nat (T + l) :: u16) + (if f32_signbit y then 32768 else 0)"
    unfolding f by (rule u16_or_sign)
  then have "unat (float2half y) = T + l + (if f32_signbit y then 32768 else 0)"
    by (simp only: TL)
  moreover have "even (T + l)" by (simp add: lT)
  ultimately show "\<not> bit (float2half y) 0" by (simp add: bit_nat_word)
qed


lemma float2half_tie_subnormal:
  assumes "k < 1024" and "f32_units z = (2 * k + 1) * 2 ^ 124"
  shows "float2half z = of_nat (if odd k then k + 1 else k) OR (if f32_signbit z then 0x8000 else 0)"
proof -
  have ub: "f32_units z < 2048 * 2 ^ 124"
    using assms(1) by (simp add: assms(2))
  have c: "f32_units 0x38800000 = 2048 * 2 ^ 124"
    by (simp add: f32_units_def f32_exp_def f32_mant_def)
  have m: "unat z mod 2147483648 < 947912704"
  proof (rule ccontr)
    assume "\<not> unat z mod 2147483648 < 947912704"
    then consider "unat z mod 2147483648 = 947912704" | "947912704 < unat z mod 2147483648"
      by linarith
    then show False
    proof cases
      case 1
      then have "take_bit 31 z = 0x38800000"
        by (simp add: word_unat_eq_iff unat_mag)
      then have "f32_units z = f32_units 0x38800000"
        using f32_units_mag [of z] by simp
      then show False using ub by (simp add: c)
    next
      case 2
      then have "unat (0x38800000 :: u32) mod 2147483648 < unat z mod 2147483648" by simp
      then have "f32_units 0x38800000 < f32_units z" by (rule units_mono)
      then show False using ub by (simp add: c)
    qed
  qed
  have "rne_shift ((2 * k + 1) * 2 ^ 124) (Suc 124) = (if odd k then k + 1 else k)"
    by (rule rne_shift_tie)
  then have "rne_shift (f32_units z) 125 = (if odd k then k + 1 else k)"
    by (simp add: assms(2))
  then show ?thesis
    using float2half_subnormal [OF m] by (simp only:)
qed


text \<open>
  C6. A binary32 value exactly halfway between two adjacent values of the target
  format rounds to the one whose retained mantissa is even: down when the lower
  neighbour is even, up when it is odd.
  \<^item> bf16: the inputs that are not NaNs and whose low 16 bits are \<open>0x8000\<close>; the lower
    neighbour is the high half of the pattern.
  \<^item> f16, normal results: the inputs of magnitude from \<open>2 ^ -14\<close> up to below \<open>2 ^ 16\<close>
    whose low 13 bits are \<open>0x1000\<close>; the lower neighbour is the rebiased magnitude
    shifted down by 13.
  \<^item> f16, subnormal results: the inputs of magnitude \<open>(2 k + 1) * 2 ^ -25\<close> with
    \<open>k < 1024\<close>, halfway between \<open>k\<close> and \<open>k + 1\<close> times \<open>2 ^ -24\<close>.
  Explicit patterns: \<open>0x3F808000\<close> rounds down to the bf16 \<open>0x3F80\<close> and \<open>0x3F818000\<close>
  up to \<open>0x3F82\<close>; \<open>0x3F801000\<close> rounds down to the f16 \<open>0x3C00\<close> and \<open>0x3F803000\<close> up
  to \<open>0x3C02\<close>; \<open>0x33000000\<close> (\<open>2 ^ -25\<close>) rounds down to the f16 \<open>0\<close> and \<open>0x33C00000\<close>
  (\<open>3 * 2 ^ -25\<close>) up to \<open>2\<close>.
\<close>

theorem tie_to_even:
  "(\<not> f32_isnan x \<and> take_bit 16 x = 0x8000 \<longrightarrow>
      float2bfloat x = (if bit x 16 then ucast (drop_bit 16 x) + 1 else ucast (drop_bit 16 x)) \<and>
      \<not> bit (float2bfloat x) 0) \<and>
   (0x38800000 \<le> take_bit 31 y \<and> take_bit 31 y < 0x47800000 \<and> take_bit 13 y = 0x1000 \<longrightarrow>
      float2half y =
        (if bit y 13 then ucast (drop_bit 13 (take_bit 31 y - 0x38000000)) + 1
         else ucast (drop_bit 13 (take_bit 31 y - 0x38000000)))
        OR (if f32_signbit y then 0x8000 else 0) \<and>
      \<not> bit (float2half y) 0) \<and>
   (k < 1024 \<and> f32_units z = (2 * k + 1) * 2 ^ 124 \<longrightarrow>
      float2half z = of_nat (if odd k then k + 1 else k) OR (if f32_signbit z then 0x8000 else 0)) \<and>
   float2bfloat 0x3F808000 = 0x3F80 \<and> float2bfloat 0x3F818000 = 0x3F82 \<and>
   float2half 0x3F801000 = 0x3C00 \<and> float2half 0x3F803000 = 0x3C02 \<and>
   float2half 0x33000000 = 0 \<and> float2half 0x33C00000 = 2"
proof -
  have a: "\<not> f32_isnan x \<and> take_bit 16 x = 0x8000 \<longrightarrow>
      float2bfloat x = (if bit x 16 then ucast (drop_bit 16 x) + 1 else ucast (drop_bit 16 x)) \<and>
      \<not> bit (float2bfloat x) 0"
    using float2bfloat_tie [of x] by blast
  have b: "0x38800000 \<le> take_bit 31 y \<and> take_bit 31 y < 0x47800000 \<and> take_bit 13 y = 0x1000 \<longrightarrow>
      float2half y =
        (if bit y 13 then ucast (drop_bit 13 (take_bit 31 y - 0x38000000)) + 1
         else ucast (drop_bit 13 (take_bit 31 y - 0x38000000)))
        OR (if f32_signbit y then 0x8000 else 0) \<and>
      \<not> bit (float2half y) 0"
    using float2half_tie_normal [of y] by blast
  have c: "k < 1024 \<and> f32_units z = (2 * k + 1) * 2 ^ 124 \<longrightarrow>
      float2half z = of_nat (if odd k then k + 1 else k) OR (if f32_signbit z then 0x8000 else 0)"
    using float2half_tie_subnormal [of k z] by blast
  have d: "float2bfloat 0x3F808000 = 0x3F80" "float2bfloat 0x3F818000 = 0x3F82"
    by (simp_all add: float2bfloat_def k_defs f32_defs)
  have e: "float2half 0x3F801000 = 0x3C00" "float2half 0x3F803000 = 0x3C02"
    by (simp_all add: float2half_def k_defs)
  have f: "float2half 0x33000000 = 0" "float2half 0x33C00000 = 2"
    by (simp_all add: float2half_def k_defs f32_defs shift_amt.simps)
  show ?thesis by (intro conjI a b c d e f)
qed

theorem tie_to_even_witness:
  "\<not> f32_isnan 0xBF818000 \<and> take_bit 16 (0xBF818000 :: u32) = 0x8000 \<and>
   float2bfloat 0xBF818000 = 0xBF82 \<and>
   0x38800000 \<le> take_bit 31 (0x3F801000 :: u32) \<and> take_bit 31 (0x3F801000 :: u32) < 0x47800000 \<and>
   take_bit 13 (0x3F801000 :: u32) = 0x1000 \<and> float2half 0x3F801000 = 0x3C00 \<and>
   (1 :: nat) < 1024 \<and> f32_units 0xB3C00000 = (2 * 1 + 1) * 2 ^ 124 \<and>
   float2half 0xB3C00000 = 0x8002"
proof -
  have a: "\<not> f32_isnan 0xBF818000" "f32_units 0xB3C00000 = (2 * 1 + 1) * 2 ^ 124"
    "f32_signbit 0xB3C00000"
    by (simp_all add: f32_isnan_def f32_units_def f32_exp_def f32_mant_def f32_signbit_def)
  show ?thesis
    using a tie_to_even [where x = "0xBF818000" and y = "0x3F801000" and k = 1 and z = "0xB3C00000"]
    by (simp add: f32_signbit_def)
qed


end
